theory Spec2Isabelle
  imports Main
begin

section \<open>Strings\<close>

text \<open>
  A Python \<open>str\<close> is modelled as a \<open>string\<close>, one \<open>char\<close> per code point, for the
  code points below 256. On that range the regular-expression class \<open>\d\<close> is the ten
  ASCII digits, and \<open>\s\<close>, \<open>str.rstrip()\<close> and \<open>str.strip()\<close> agree on the white space
  of \<open>is_space\<close>. Python's integers are unbounded; the components of a version are never
  negative (they are read by \<open>\d+\<close>), so they are natural numbers here. The limit that
  recent interpreters put on the number of digits \<open>int\<close> and \<open>str\<close> convert (4300 unless
  it is configured) is left out.
\<close>

abbreviation NL :: char where
  "NL \<equiv> CHR 0x0A"

definition is_digit :: "char \<Rightarrow> bool" where
  "is_digit c = (c \<in> set ''0123456789'')"

definition is_space :: "char \<Rightarrow> bool" where
  "is_space c = (c \<in> set [CHR 0x09, CHR 0x0A, CHR 0x0B, CHR 0x0C, CHR 0x0D,
                           CHR 0x1C, CHR 0x1D, CHR 0x1E, CHR 0x1F, CHR 0x20,
                           CHR 0x85, CHR 0xA0])"

text \<open>\<open>s.startswith(p)\<close>.\<close>

definition startswith :: "string \<Rightarrow> string \<Rightarrow> bool" where
  "startswith s p = (take (length p) s = p)"

text \<open>\<open>s.find(sub)\<close>: the least index of an occurrence, \<open>None\<close> for Python's \<open>-1\<close>.\<close>

fun str_find :: "string \<Rightarrow> string \<Rightarrow> nat option" where
  "str_find sub [] = (if sub = [] then Some 0 else None)"
| "str_find sub (c # cs) =
     (if startswith (c # cs) sub then Some 0 else map_option Suc (str_find sub cs))"

text \<open>\<open>s.find(sub, start)\<close> for a start that is not negative.\<close>

definition str_find_from :: "string \<Rightarrow> string \<Rightarrow> nat \<Rightarrow> nat option" where
  "str_find_from sub s start =
     (if length s < start then None
      else map_option (\<lambda>i. i + start) (str_find sub (drop start s)))"

text \<open>\<open>sub in s\<close>.\<close>

definition str_contains :: "string \<Rightarrow> string \<Rightarrow> bool" where
  "str_contains sub s = (str_find sub s \<noteq> None)"

text \<open>\<open>str(n)\<close> and \<open>int(ds)\<close> for a natural number and a string of digits.\<close>

definition digit_char :: "nat \<Rightarrow> char" where
  "digit_char d = ''0123456789'' ! d"

definition digit_val :: "char \<Rightarrow> nat" where
  "digit_val c = of_char c - 48"

function str_of_nat :: "nat \<Rightarrow> string" where
  "str_of_nat n =
     (if n < 10 then [digit_char n] else str_of_nat (n div 10) @ [digit_char (n mod 10)])"
  by pat_completeness auto
termination
  by (relation "measure id") auto

declare str_of_nat.simps [simp del]

definition int_of_digits :: "string \<Rightarrow> nat" where
  "int_of_digits ds = foldl (\<lambda>acc c. 10 * acc + digit_val c) 0 ds"

section \<open>Version strings (version_manager.py)\<close>

datatype ChangeType = MAJOR | MINOR | PATCH

datatype error =
  ValueError string
| FileNotFoundError "string list"

text \<open>
  \<open>re.match(r'^(\d+)\.(\d+)\.(\d+)$', version)\<close>: the three groups, or \<open>None\<close>. Each
  \<open>\d+\<close> is greedy and is followed by something that is not a digit, so the match never
  backtracks. In Python \<open>$\<close> matches at the end of the string and also just before a
  line feed that ends the string.
\<close>

definition match_version :: "string \<Rightarrow> (string \<times> string \<times> string) option" where
  "match_version version =
     (let g1 = takeWhile is_digit version; r1 = dropWhile is_digit version in
      if g1 = [] then None
      else case r1 of
        [] \<Rightarrow> None
      | d1 # r1' \<Rightarrow>
          if d1 \<noteq> CHR ''.'' then None
          else
            let g2 = takeWhile is_digit r1'; r2 = dropWhile is_digit r1' in
            if g2 = [] then None
            else case r2 of
              [] \<Rightarrow> None
            | d2 # r2' \<Rightarrow>
                if d2 \<noteq> CHR ''.'' then None
                else
                  let g3 = takeWhile is_digit r2'; r3 = dropWhile is_digit r2' in
                  if g3 = [] then None
                  else if r3 = [] \<or> r3 = [NL] then Some (g1, g2, g3)
                  else None)"

definition parse_version :: "string \<Rightarrow> error + (nat \<times> nat \<times> nat)" where
  "parse_version version =
     (case match_version version of
        None \<Rightarrow> Inl (ValueError (''Invalid version format: '' @ version))
      | Some (g1, g2, g3) \<Rightarrow> Inr (int_of_digits g1, int_of_digits g2, int_of_digits g3))"

text \<open>The f-string \<open>f"{a}.{b}.{c}"\<close>.\<close>

definition format_version :: "nat \<Rightarrow> nat \<Rightarrow> nat \<Rightarrow> string" where
  "format_version a b c = str_of_nat a @ ''.'' @ str_of_nat b @ ''.'' @ str_of_nat c"

definition increment_version :: "string \<Rightarrow> ChangeType \<Rightarrow> error + string" where
  "increment_version version change_type =
     (case parse_version version of
        Inl e \<Rightarrow> Inl e
      | Inr (major, minor, patch) \<Rightarrow>
          (case change_type of
             MAJOR \<Rightarrow> Inr (format_version (major + 1) 0 0)
           | MINOR \<Rightarrow> Inr (format_version major (minor + 1) 0)
           | PATCH \<Rightarrow> Inr (format_version major minor (patch + 1))))"

text \<open>
  Python compares tuples at the first position where they differ: \<open>current >= required\<close>.
\<close>

fun tuple_ge :: "nat \<times> nat \<times> nat \<Rightarrow> nat \<times> nat \<times> nat \<Rightarrow> bool" where
  "tuple_ge (a1, a2, a3) (b1, b2, b3) =
     (if a1 \<noteq> b1 then b1 \<le> a1 else if a2 \<noteq> b2 then b2 \<le> a2 else b3 \<le> a3)"

text \<open>
  The grammar of the specification: \<open>MAJOR.MINOR.PATCH\<close>, three non-empty runs of digits
  separated by dots and nothing else.
\<close>

definition digits :: "string \<Rightarrow> bool" where
  "digits ds = (ds \<noteq> [] \<and> list_all is_digit ds)"

definition semver :: "string \<Rightarrow> string \<Rightarrow> string \<Rightarrow> string" where
  "semver ma mi pa = ma @ ''.'' @ mi @ ''.'' @ pa"

text \<open>The order of the specification's wording: greater or equal in every component.\<close>

fun componentwise_ge :: "nat \<times> nat \<times> nat \<Rightarrow> nat \<times> nat \<times> nat \<Rightarrow> bool" where
  "componentwise_ge (a1, a2, a3) (b1, b2, b3) = (b1 \<le> a1 \<and> b2 \<le> a2 \<and> b3 \<le> a3)"

section \<open>More string operations\<close>

text \<open>\<open>s[i:j]\<close> for indices that are not negative.\<close>

definition slice :: "string \<Rightarrow> nat \<Rightarrow> nat \<Rightarrow> string" where
  "slice s i j = drop i (take j s)"

text \<open>\<open>s.rstrip()\<close> and \<open>s.strip()\<close>.\<close>

definition rstrip :: "string \<Rightarrow> string" where
  "rstrip s = rev (dropWhile is_space (rev s))"


text \<open>\<open>s.split(d)\<close> for a separator of one character, and \<open>sep.join(xs)\<close>.\<close>

fun split_on :: "char \<Rightarrow> string \<Rightarrow> string list" where
  "split_on d [] = [[]]"
| "split_on d (c # cs) =
     (if c = d then [] # split_on d cs
      else (case split_on d cs of [] \<Rightarrow> [[c]] | l # ls \<Rightarrow> (c # l) # ls))"

fun join_with :: "string \<Rightarrow> string list \<Rightarrow> string" where
  "join_with sep [] = []"
| "join_with sep [x] = x"
| "join_with sep (x # y # ys) = x @ sep @ join_with sep (y # ys)"

text \<open>
  \<open>s.count(sub)\<close> for a pattern that is not empty: the occurrences are counted from the
  left and do not overlap.
\<close>

fun str_count :: "string \<Rightarrow> string \<Rightarrow> nat" where
  "str_count sub [] = 0"
| "str_count sub (c # cs) =
     (if sub \<noteq> [] \<and> startswith (c # cs) sub
      then Suc (str_count sub (drop (length sub - 1) cs))
      else str_count sub cs)"

text \<open>\<open>s.lower()\<close> on the code points below 256.\<close>

definition lower_char :: "char \<Rightarrow> char" where
  "lower_char c =
     (let n = (of_char c :: nat) in
      if (65 \<le> n \<and> n \<le> 90) \<or> (192 \<le> n \<and> n \<le> 222 \<and> n \<noteq> 215)
      then char_of (n + 32) else c)"

definition lower :: "string \<Rightarrow> string" where
  "lower s = map lower_char s"

text \<open>
  \<open>s.splitlines()\<close>: a line ends at a line feed, a carriage return (with the line feed
  that follows it, if any) or one of the other line boundaries; there is no empty last line.
\<close>

definition is_linebreak :: "char \<Rightarrow> bool" where
  "is_linebreak c = (c \<in> set [CHR 0x0A, CHR 0x0B, CHR 0x0C, CHR 0x0D,
                               CHR 0x1C, CHR 0x1D, CHR 0x1E, CHR 0x85])"

fun splitlines_from :: "string \<Rightarrow> string \<Rightarrow> string list" where
  "splitlines_from cur [] = (if cur = [] then [] else [cur])"
| "splitlines_from cur [c] = (if is_linebreak c then [cur] else [cur @ [c]])"
| "splitlines_from cur (c # d # cs) =
     (if c = CHR 0x0D \<and> d = NL then cur # splitlines_from [] cs
      else if is_linebreak c then cur # splitlines_from [] (d # cs)
      else splitlines_from (cur @ [c]) (d # cs))"

definition splitlines :: "string \<Rightarrow> string list" where
  "splitlines s = splitlines_from [] s"

section \<open>Paths and files\<close>

text \<open>
  A \<open>Path\<close> is the list of its components, and the file system is a map from paths to the
  text of the regular files; two lists that differ are two files. \<open>p / d / f\<close> appends the
  components \<open>d\<close> and \<open>f\<close> (a command name has no separator in it). Reads and writes of
  files that exist do not fail.
\<close>

type_synonym path = "string list"

definition path_str :: "path \<Rightarrow> string" where
  "path_str p = join_with ''/'' p"

definition path_name :: "path \<Rightarrow> string" where
  "path_name p = (if p = [] then [] else last p)"

text \<open>\<open>s.rfind(c)\<close> for one character.\<close>

definition str_rfind :: "char \<Rightarrow> string \<Rightarrow> nat option" where
  "str_rfind c s =
     (case str_find [c] (rev s) of None \<Rightarrow> None | Some j \<Rightarrow> Some (length s - 1 - j))"

text \<open>\<open>Path.stem\<close>: the last component without its last suffix.\<close>

definition stem :: "path \<Rightarrow> string" where
  "stem p =
     (let nm = path_name p in
      case str_rfind CHR ''.'' nm of
        None \<Rightarrow> nm
      | Some i \<Rightarrow> if 0 < i \<and> i < length nm - 1 then take i nm else nm)"

section \<open>The version manager (version_manager.py)\<close>

record CommandVersion =
  version :: string
  released :: string
  changes :: "string list"
  breaking_changes :: "string list"
  deprecated_features :: "string list"

record CommandMetadata =
  name :: string
  type :: string
  description :: string
  current_version :: string
  created :: string
  last_updated :: string
  tags :: "string list"
  dependencies :: "string list"
  version_history :: "CommandVersion list"

text \<open>
  The state of a run: the fields of the \<open>VersionManager\<close> object (\<open>repo_path\<close> and the
  dictionary \<open>metadata\<close>) and what is on disk. \<open>metadata_file\<close> is the content of
  \<open>.command-metadata.json\<close> as the dictionary it encodes (\<open>None\<close> when the file does not
  exist); \<open>files\<close> holds the command files and \<open>CHANGELOG.md\<close>. Printing is left out.
  Each call of \<open>datetime.now()\<close> is an argument of the operation that makes it.
\<close>

record state =
  repo_path :: path
  metadata :: "string \<rightharpoonup> CommandMetadata"
  metadata_file :: "(string \<rightharpoonup> CommandMetadata) option"
  files :: "path \<rightharpoonup> string"

text \<open>
  An operation returns \<open>Inr\<close> of the state it leaves, or \<open>Inl\<close> of the exception it
  raises and the state at that moment.
\<close>

type_synonym outcome = "(error \<times> state) + state"

definition state_of :: "outcome \<Rightarrow> state" where
  "state_of r = (case r of Inl (e, s) \<Rightarrow> s | Inr s \<Rightarrow> s)"

definition load_metadata :: "state \<Rightarrow> state" where
  "load_metadata s =
     s\<lparr>metadata := (case metadata_file s of Some d \<Rightarrow> d | None \<Rightarrow> Map.empty)\<rparr>"

definition save_metadata :: "state \<Rightarrow> state" where
  "save_metadata s = s\<lparr>metadata_file := Some (metadata s)\<rparr>"

text \<open>\<open>xs or []\<close> for an optional list.\<close>

definition or_empty :: "'a list option \<Rightarrow> 'a list" where
  "or_empty xs = (case xs of None \<Rightarrow> [] | Some ys \<Rightarrow> ys)"

text \<open>
  \<open>re.sub(r'version:\s*[\d.]+', repl, s)\<close>. \<open>version_match s\<close> is the length of the match
  that starts at the head of \<open>s\<close>: \<open>\s*\<close> and \<open>[\d.]+\<close> are greedy and share no
  character, so giving back white space never helps. Matches are replaced from the left
  and do not overlap; none is empty. The replacement has no backslash in it.
\<close>

definition is_version_char :: "char \<Rightarrow> bool" where
  "is_version_char c = (is_digit c \<or> c = CHR ''.'')"

definition version_match :: "string \<Rightarrow> nat option" where
  "version_match s =
     (if startswith s ''version:'' then
        (let r = drop 8 s;
             ws = takeWhile is_space r;
             num = takeWhile is_version_char (dropWhile is_space r)
         in if num = [] then None else Some (8 + length ws + length num))
      else None)"

fun re_sub_version :: "string \<Rightarrow> string \<Rightarrow> string" where
  "re_sub_version repl [] = []"
| "re_sub_version repl (c # cs) =
     (case version_match (c # cs) of
        Some n \<Rightarrow> repl @ re_sub_version repl (drop (n - 1) cs)
      | None \<Rightarrow> c # re_sub_version repl cs)"

text \<open>The text that \<open>_update_command_file\<close> writes back, from the text it has read.\<close>

definition new_content :: "string \<Rightarrow> string \<Rightarrow> string" where
  "new_content content v =
     (if startswith content ''---'' then
        (case str_find_from ''---'' content 3 of
           Some end_index \<Rightarrow>
             (let frontmatter = slice content 3 end_index;
                  frontmatter' =
                    (if str_contains ''version:'' frontmatter
                     then re_sub_version (''version: '' @ v) frontmatter
                     else rstrip frontmatter @ [NL] @ ''version: '' @ v @ [NL])
              in ''---'' @ frontmatter' @ ''---'' @ drop (end_index + 3) content)
         | None \<Rightarrow> ''---'' @ [NL] @ ''version: '' @ v @ [NL] @ ''---'' @ [NL] @ content)
      else ''---'' @ [NL] @ ''version: '' @ v @ [NL] @ ''---'' @ [NL] @ content)"

definition update_command_file :: "path \<Rightarrow> string \<Rightarrow> state \<Rightarrow> outcome" where
  "update_command_file command_path v s =
     (case files s command_path of
        None \<Rightarrow> Inl (FileNotFoundError command_path, s)
      | Some content \<Rightarrow> Inr (s\<lparr>files := (files s)(command_path \<mapsto> new_content content v)\<rparr>))"

definition find_command_file :: "string \<Rightarrow> state \<Rightarrow> path option" where
  "find_command_file command_name s =
     (if files s (repo_path s @ [''workflows'', command_name @ ''.md'']) \<noteq> None
      then Some (repo_path s @ [''workflows'', command_name @ ''.md''])
      else if files s (repo_path s @ [''tools'', command_name @ ''.md'']) \<noteq> None
      then Some (repo_path s @ [''tools'', command_name @ ''.md''])
      else None)"

text \<open>The entry of the changelog, built as the source builds \<open>entry_lines\<close>.\<close>

definition changelog_entry :: "string \<Rightarrow> string \<Rightarrow> CommandVersion \<Rightarrow> string \<Rightarrow> string" where
  "changelog_entry command_name new_version version_entry today =
     (let entry_lines =
            [[NL] @ ''## ['' @ command_name @ ''] '' @ new_version @ '' - '' @ today @ [NL]];
          entry_lines =
            (if breaking_changes version_entry \<noteq> []
             then entry_lines @ [[NL] @ ''### Breaking Changes'' @ [NL]]
                    @ map (\<lambda>change. ''- '' @ change @ [NL]) (breaking_changes version_entry)
             else entry_lines);
          entry_lines =
            (if changes version_entry \<noteq> []
             then entry_lines @ [[NL] @ ''### Changes'' @ [NL]]
                    @ map (\<lambda>change. ''- '' @ change @ [NL]) (changes version_entry)
             else entry_lines);
          entry_lines =
            (if deprecated_features version_entry \<noteq> []
             then entry_lines @ [[NL] @ ''### Deprecated'' @ [NL]]
                    @ map (\<lambda>feature. ''- '' @ feature @ [NL]) (deprecated_features version_entry)
             else entry_lines)
      in concat entry_lines)"


text \<open>
  The loop that looks for the header: \<open>insert_index\<close> stays \<open>0\<close> unless a line starts
  with \<open>'# '\<close>, and the first such line ends the loop.
\<close>

fun insert_index :: "string list \<Rightarrow> nat \<Rightarrow> nat" where
  "insert_index [] i = 0"
| "insert_index (line # rest) i =
     (if startswith line ''# '' then i + 1 else insert_index rest (i + 1))"

text \<open>\<open>xs.insert(i, x)\<close> for an index that is not negative.\<close>

definition list_insert :: "'a list \<Rightarrow> nat \<Rightarrow> 'a \<Rightarrow> 'a list" where
  "list_insert xs i x = take i xs @ [x] @ drop i xs"

definition changelog_path :: "state \<Rightarrow> path" where
  "changelog_path s = repo_path s @ [''CHANGELOG.md'']"

text \<open>
  The text that \<open>_update_changelog\<close> writes: from the text of the changelog it has read,
  or \<open>None\<close> when there is no such file, and the entry.
\<close>

definition changelog_text :: "string option \<Rightarrow> string \<Rightarrow> string" where
  "changelog_text existing entry =
     (case existing of
        Some content \<Rightarrow>
          (let lines = split_on NL content;
               lines' = list_insert lines (insert_index lines 0) entry
           in join_with [NL] lines')
      | None \<Rightarrow> ''# Claude Code Commands Changelog'' @ [NL] @ entry)"

definition update_changelog ::
  "string \<Rightarrow> string \<Rightarrow> string \<Rightarrow> CommandVersion \<Rightarrow> string \<Rightarrow> state \<Rightarrow> state" where
  "update_changelog command_name old_version new_version version_entry today s =
     (let entry = changelog_entry command_name new_version version_entry today in
      s\<lparr>files := (files s)(changelog_path s \<mapsto>
            changelog_text (files s (changelog_path s)) entry)\<rparr>)"

text \<open>
  \<open>initialize_command\<close>. \<open>now\<close> holds the three readings of the clock, in the order of
  the keyword arguments: \<open>created\<close>, \<open>last_updated\<close>, \<open>released\<close>.
\<close>

definition initialize_command ::
  "path \<Rightarrow> string \<Rightarrow> string list option \<Rightarrow> string list option
     \<Rightarrow> string \<times> string \<times> string \<Rightarrow> state \<Rightarrow> outcome" where
  "initialize_command command_path descr tgs deps now s =
     (let command_name = stem command_path;
          command_type =
            (if str_contains ''workflows'' (path_str command_path)
             then ''workflow'' else ''tool'')
      in if metadata s command_name \<noteq> None then Inr s
         else
           (let (t_created, t_updated, t_released) = now;
                md = \<lparr>name = command_name, type = command_type, description = descr,
                      current_version = ''1.0.0'', created = t_created,
                      last_updated = t_updated, tags = or_empty tgs,
                      dependencies = or_empty deps,
                      version_history =
                        [\<lparr>version = ''1.0.0'', released = t_released,
                          changes = [''Initial release''], breaking_changes = [],
                          deprecated_features = []\<rparr>]\<rparr>;
                s1 = s\<lparr>metadata := (metadata s)(command_name \<mapsto> md)\<rparr>;
                s2 = save_metadata s1
            in update_command_file command_path ''1.0.0'' s2))"

text \<open>
  \<open>update_version\<close>. \<open>now\<close> holds the readings of the clock in the order of the calls:
  \<open>released\<close>, \<open>last_updated\<close> and the date of the changelog entry.
\<close>

definition update_version ::
  "string \<Rightarrow> ChangeType \<Rightarrow> string list \<Rightarrow> string list option \<Rightarrow> string list option
     \<Rightarrow> string \<times> string \<times> string \<Rightarrow> state \<Rightarrow> outcome" where
  "update_version command_name change_type chgs breaking deprecated now s =
     (case metadata s command_name of
        None \<Rightarrow> Inl (ValueError (''Command '' @ command_name @ '' not found in metadata''), s)
      | Some md \<Rightarrow>
          (let old_version = current_version md in
           case increment_version old_version change_type of
             Inl e \<Rightarrow> Inl (e, s)
           | Inr new_version \<Rightarrow>
               (let (t_released, t_updated, today) = now;
                    version_entry =
                      \<lparr>version = new_version, released = t_released, changes = chgs,
                       breaking_changes = or_empty breaking,
                       deprecated_features = or_empty deprecated\<rparr>;
                    md' = md\<lparr>current_version := new_version, last_updated := t_updated,
                             version_history := version_history md @ [version_entry]\<rparr>;
                    s1 = s\<lparr>metadata := (metadata s)(command_name \<mapsto> md')\<rparr>;
                    s2 = save_metadata s1
                in case (case find_command_file command_name s2 of
                           Some command_path \<Rightarrow> update_command_file command_path new_version s2
                         | None \<Rightarrow> Inr s2) of
                     Inl failure \<Rightarrow> Inl failure
                   | Inr s3 \<Rightarrow>
                       Inr (update_changelog command_name old_version new_version
                              version_entry today s3))))"

definition check_compatibility :: "string \<Rightarrow> string \<Rightarrow> state \<Rightarrow> error + bool" where
  "check_compatibility command_name required_version s =
     (case metadata s command_name of
        None \<Rightarrow> Inr False
      | Some md \<Rightarrow>
          (case parse_version (current_version md) of
             Inl e \<Rightarrow> Inl e
           | Inr current \<Rightarrow>
               (case parse_version required_version of
                  Inl e \<Rightarrow> Inl e
                | Inr required \<Rightarrow> Inr (tuple_ge current required))))"

text \<open>A run of updates of one command, one after the other; it stops at the first failure.\<close>

type_synonym update_args =
  "ChangeType \<times> string list \<times> string list option \<times> string list option
     \<times> (string \<times> string \<times> string)"

fun update_all :: "string \<Rightarrow> update_args list \<Rightarrow> state \<Rightarrow> outcome" where
  "update_all command_name [] s = Inr s"
| "update_all command_name ((change_type, chgs, breaking, deprecated, now) # us) s =
     (case update_version command_name change_type chgs breaking deprecated now s of
        Inl failure \<Rightarrow> Inl failure
      | Inr s' \<Rightarrow> update_all command_name us s')"

text \<open>
  The order on version strings in which a history is monotone: both strings parse and the
  first is at most the second as a tuple.
\<close>

definition version_le :: "string \<Rightarrow> string \<Rightarrow> bool" where
  "version_le v w =
     (case (parse_version v, parse_version w) of
        (Inr a, Inr b) \<Rightarrow> tuple_ge b a
      | _ \<Rightarrow> False)"

text \<open>
  The invariant of a command's metadata: the history is not empty, the current version is
  the version of its last entry and parses, and the versions of the history do not
  decrease.
\<close>

definition history_ok :: "CommandMetadata \<Rightarrow> bool" where
  "history_ok md =
     (version_history md \<noteq> []
      \<and> current_version md = version (last (version_history md))
      \<and> version_le (current_version md) (current_version md)
      \<and> sorted_wrt version_le (map version (version_history md)))"






definition closes :: "string \<Rightarrow> string \<Rightarrow> bool" where
  "closes block rest = (str_find ''---'' (block @ ''---'' @ rest) = Some (length block))"

section \<open>The validators (tests/test_framework.py)\<close>

datatype ValidationLevel = ERROR | WARNING | INFO

record ValidationResult =
  level :: ValidationLevel
  message :: string
  line_number :: "nat option"
  command_file :: "string option"

record CommandValidator =
  command_path :: string
  content :: string
  lines :: "string list"
  results :: "ValidationResult list"

text \<open>The constructor, from \<open>str(command_path)\<close> and the text of the file.\<close>

definition CommandValidator_init :: "string \<Rightarrow> string \<Rightarrow> CommandValidator" where
  "CommandValidator_init p text =
     \<lparr>command_path = p, content = text, lines = splitlines text, results = []\<rparr>"

abbreviation BQ :: char where
  "BQ \<equiv> CHR 0x60"

text \<open>\<open>header_levels\<close>: the level and the line number of every line that starts with \<open>#\<close>.\<close>

fun header_levels :: "string list \<Rightarrow> nat \<Rightarrow> (nat \<times> nat) list" where
  "header_levels [] i = []"
| "header_levels (l # ls) i =
     (if startswith l ''#''
      then (length l - length (dropWhile (\<lambda>c. c = CHR ''#'') l), i + 1) # header_levels ls (i + 1)
      else header_levels ls (i + 1))"

fun header_jumps :: "string \<Rightarrow> (nat \<times> nat) list \<Rightarrow> ValidationResult list" where
  "header_jumps p ((prev_level, prev_line) # (curr_level, curr_line) # hs) =
     (if prev_level + 1 < curr_level
      then [\<lparr>level = WARNING,
             message = ''Header level jumps from '' @ str_of_nat prev_level @ '' to ''
                         @ str_of_nat curr_level,
             line_number = Some curr_line, command_file = Some p\<rparr>]
      else [])
     @ header_jumps p ((curr_level, curr_line) # hs)"
| "header_jumps p hs = []"

definition unclosed_code_block :: "string \<Rightarrow> ValidationResult" where
  "unclosed_code_block p =
     \<lparr>level = ERROR, message = ''Unclosed code block detected'',
      line_number = None, command_file = Some p\<rparr>"

definition validate_markdown :: "CommandValidator \<Rightarrow> CommandValidator" where
  "validate_markdown self =
     (let code_block_count = str_count [BQ, BQ, BQ] (content self);
          self = (if code_block_count mod 2 \<noteq> 0
                  then self\<lparr>results := results self @ [unclosed_code_block (command_path self)]\<rparr>
                  else self)
      in self\<lparr>results := results self
                @ header_jumps (command_path self) (header_levels (lines self) 0)\<rparr>)"

definition task_tool_warning :: "string \<Rightarrow> ValidationResult" where
  "task_tool_warning p =
     \<lparr>level = WARNING, message = ''Workflow should use Task tool for subagent coordination'',
      line_number = None, command_file = Some p\<rparr>"

definition subagent_type_warning :: "string \<Rightarrow> ValidationResult" where
  "subagent_type_warning p =
     \<lparr>level = WARNING, message = ''Workflow using Task tool should specify subagent_type'',
      line_number = None, command_file = Some p\<rparr>"

definition validate_task_tool_usage :: "CommandValidator \<Rightarrow> CommandValidator" where
  "validate_task_tool_usage self =
     (let self = (if \<not> str_contains ''Task tool'' (content self)
                     \<and> \<not> str_contains ''subagent'' (lower (content self))
                  then self\<lparr>results := results self @ [task_tool_warning (command_path self)]\<rparr>
                  else self)
      in if \<not> str_contains ''subagent_type'' (content self)
            \<and> str_contains ''Task tool'' (content self)
         then self\<lparr>results := results self @ [subagent_type_warning (command_path self)]\<rparr>
         else self)"

section \<open>Example data\<close>

text \<open>A store with the one command \<open>deploy\<close> at a given version, over given files.\<close>

definition demo_metadata :: "string \<Rightarrow> CommandMetadata" where
  "demo_metadata v =
     \<lparr>name = ''deploy'', type = ''tool'', description = ''Tool: Deploy'',
      current_version = v, created = ''2024-01-01T09:00:00'',
      last_updated = ''2024-01-01T09:00:00'', tags = [], dependencies = [],
      version_history =
        [\<lparr>version = v, released = ''2024-01-01T09:00:00'', changes = [''Initial release''],
          breaking_changes = [], deprecated_features = []\<rparr>]\<rparr>"

definition demo_state :: "string \<Rightarrow> (path \<rightharpoonup> string) \<Rightarrow> state" where
  "demo_state v fs =
     \<lparr>repo_path = [''repo''], metadata = [''deploy'' \<mapsto> demo_metadata v],
      metadata_file = Some [''deploy'' \<mapsto> demo_metadata v], files = fs\<rparr>"

text \<open>
  A repository with one tool file and no store, and two updates of \<open>deploy\<close>.
\<close>

definition fresh_state :: state where
  "fresh_state =
     \<lparr>repo_path = [''repo''], metadata = Map.empty, metadata_file = None,
      files = [[''repo'', ''tools'', ''deploy.md''] \<mapsto> ''# Deploy'']\<rparr>"

definition demo_updates :: "update_args list" where
  "demo_updates =
     [(MINOR, [''Add dry run''], None, None,
       (''2024-03-01T10:00:00'', ''2024-03-01T10:00:01'', ''2024-03-01'')),
      (PATCH, [''Fix typo''], None, Some [''Old flag''],
       (''2024-03-02T10:00:00'', ''2024-03-02T10:00:01'', ''2024-03-02''))]"

text \<open>Two documents: one with three fence markers and one with two.\<close>

definition three_fences :: string where
  "three_fences = [BQ, BQ, BQ] @ ''sh'' @ [NL] @ ''ls'' @ [NL] @ [BQ, BQ, BQ] @ [NL]
     @ [BQ, BQ, BQ] @ [NL]"

definition two_fences :: string where
  "two_fences = ''# Title'' @ [NL] @ [BQ, BQ, BQ] @ ''sh'' @ [NL] @ ''ls'' @ [NL]
     @ [BQ, BQ, BQ] @ [NL]"






section \<open>Digits and numbers\<close>

lemma is_digit_dot [simp]: "\<not> is_digit CHR ''.''"
  by (simp add: is_digit_def)

lemma is_digit_NL [simp]: "\<not> is_digit NL"
  by (simp add: is_digit_def)

lemma digit_char_is_digit: "d < 10 \<Longrightarrow> is_digit (digit_char d)"
  unfolding is_digit_def digit_char_def by (rule nth_mem) simp

lemma below_ten: "d < 10 \<Longrightarrow> d \<in> {0, 1, 2, 3, 4, 5, 6, 7, 8, 9::nat}"
  by auto

lemma digit_val_digit_char: "d < 10 \<Longrightarrow> digit_val (digit_char d) = d"
  by (drule below_ten) (auto simp: digit_val_def digit_char_def)

lemma str_of_nat_digits: "list_all is_digit (str_of_nat n)"
proof (induction n rule: str_of_nat.induct)
  case (1 n)
  show ?case
  proof (cases "n < 10")
    case True
    then show ?thesis
      by (subst str_of_nat.simps) (simp add: digit_char_is_digit)
  next
    case False
    with "1" show ?thesis
      by (subst str_of_nat.simps) (simp add: digit_char_is_digit)
  qed
qed

lemma str_of_nat_nonempty: "str_of_nat n \<noteq> []"
  by (subst str_of_nat.simps) simp

lemma int_of_digits_snoc:
  "int_of_digits (ds @ [c]) = 10 * int_of_digits ds + digit_val c"
  by (simp add: int_of_digits_def)

lemma int_of_digits_str_of_nat: "int_of_digits (str_of_nat n) = n"
proof (induction n rule: str_of_nat.induct)
  case (1 n)
  show ?case
  proof (cases "n < 10")
    case True
    then show ?thesis
      by (subst str_of_nat.simps) (simp add: int_of_digits_def digit_val_digit_char)
  next
    case False
    then have "int_of_digits (str_of_nat n)
        = 10 * int_of_digits (str_of_nat (n div 10)) + digit_val (digit_char (n mod 10))"
      by (subst str_of_nat.simps) (simp add: int_of_digits_snoc)
    with False "1" show ?thesis
      by (simp add: digit_val_digit_char)
  qed
qed

lemma digits_str_of_nat: "digits (str_of_nat n)"
  by (simp add: digits_def str_of_nat_nonempty str_of_nat_digits)

lemma takeWhile_digits_stop:
  "list_all is_digit ds \<Longrightarrow> (rest = [] \<or> \<not> is_digit (hd rest))
     \<Longrightarrow> takeWhile is_digit (ds @ rest) = ds"
  by (induction ds) (cases rest; auto)+

lemma dropWhile_digits_stop:
  "list_all is_digit ds \<Longrightarrow> (rest = [] \<or> \<not> is_digit (hd rest))
     \<Longrightarrow> dropWhile is_digit (ds @ rest) = rest"
  by (induction ds) (cases rest; auto)+

lemma match_version_semver:
  assumes "digits ma" "digits mi" "digits pa"
  shows "match_version (semver ma mi pa) = Some (ma, mi, pa)"
proof -
  have t1: "takeWhile is_digit (ma @ CHR ''.'' # mi @ CHR ''.'' # pa) = ma"
    and d1: "dropWhile is_digit (ma @ CHR ''.'' # mi @ CHR ''.'' # pa) = CHR ''.'' # mi @ CHR ''.'' # pa"
    using assms(1) by (simp_all add: digits_def takeWhile_digits_stop dropWhile_digits_stop)
  have t2: "takeWhile is_digit (mi @ CHR ''.'' # pa) = mi"
    and d2: "dropWhile is_digit (mi @ CHR ''.'' # pa) = CHR ''.'' # pa"
    using assms(2) by (simp_all add: digits_def takeWhile_digits_stop dropWhile_digits_stop)
  have t3: "takeWhile is_digit pa = pa" and d3: "dropWhile is_digit pa = []"
    using assms(3) takeWhile_digits_stop [of pa "[]"] dropWhile_digits_stop [of pa "[]"]
    by (simp_all add: digits_def)
  from assms show ?thesis
    by (simp add: match_version_def semver_def t1 d1 t2 d2 t3 d3 digits_def)
qed

lemma parse_version_semver:
  assumes "digits ma" "digits mi" "digits pa"
  shows "parse_version (semver ma mi pa)
    = Inr (int_of_digits ma, int_of_digits mi, int_of_digits pa)"
  by (simp add: parse_version_def match_version_semver [OF assms])

lemma format_version_semver:
  "format_version a b c = semver (str_of_nat a) (str_of_nat b) (str_of_nat c)"
  by (simp add: format_version_def semver_def)

lemma parse_version_format_version: "parse_version (format_version a b c) = Inr (a, b, c)"
  by (simp add: format_version_semver parse_version_semver digits_str_of_nat
      int_of_digits_str_of_nat)

text \<open>
  What \<open>_parse_version\<close> accepts: \<open>MAJOR.MINOR.PATCH\<close>, and the same followed by one line
  feed (the \<open>$\<close> of the pattern).
\<close>

lemma digits_takeWhile: "takeWhile is_digit s \<noteq> [] \<Longrightarrow> digits (takeWhile is_digit s)"
  by (auto simp: digits_def list_all_iff dest: set_takeWhileD)

lemma match_version_Some:
  assumes "match_version v = Some (g1, g2, g3)"
  shows "digits g1 \<and> digits g2 \<and> digits g3
    \<and> (v = semver g1 g2 g3 \<or> v = semver g1 g2 g3 @ [NL])"
proof -
  from assms obtain x y where g: "g1 = takeWhile is_digit v" "g1 \<noteq> []"
    "dropWhile is_digit v = CHR ''.'' # x"
    "g2 = takeWhile is_digit x" "g2 \<noteq> []"
    "dropWhile is_digit x = CHR ''.'' # y"
    "g3 = takeWhile is_digit y" "g3 \<noteq> []"
    "dropWhile is_digit y = [] \<or> dropWhile is_digit y = [NL]"
    unfolding match_version_def Let_def
    by (auto split: if_splits list.splits simp del: dropWhile_eq_Nil_conv)
  have "v = takeWhile is_digit v @ dropWhile is_digit v"
    by simp
  also have "\<dots> = g1 @ CHR ''.'' # x"
    by (simp only: g(1,3))
  also have "x = takeWhile is_digit x @ dropWhile is_digit x"
    by simp
  also have "\<dots> = g2 @ CHR ''.'' # y"
    by (simp only: g(4,6))
  also have "y = takeWhile is_digit y @ dropWhile is_digit y"
    by simp
  also have "\<dots> = g3 @ dropWhile is_digit y"
    by (simp only: g(7))
  finally have "v = semver g1 g2 g3 @ dropWhile is_digit y"
    by (simp add: semver_def)
  with g(9) have "v = semver g1 g2 g3 \<or> v = semver g1 g2 g3 @ [NL]"
    by auto
  moreover from g(1,2,4,5,7,8) have "digits g1" "digits g2" "digits g3"
    by (simp_all add: digits_takeWhile)
  ultimately show ?thesis
    by simp
qed

lemma match_version_line_feed:
  assumes "digits ma" "digits mi" "digits pa"
  shows "match_version (semver ma mi pa @ [NL]) = Some (ma, mi, pa)"
proof -
  have t1: "takeWhile is_digit (ma @ CHR ''.'' # mi @ CHR ''.'' # pa @ [NL]) = ma"
    and d1: "dropWhile is_digit (ma @ CHR ''.'' # mi @ CHR ''.'' # pa @ [NL])
      = CHR ''.'' # mi @ CHR ''.'' # pa @ [NL]"
    using assms(1) by (simp_all add: digits_def takeWhile_digits_stop dropWhile_digits_stop)
  have t2: "takeWhile is_digit (mi @ CHR ''.'' # pa @ [NL]) = mi"
    and d2: "dropWhile is_digit (mi @ CHR ''.'' # pa @ [NL]) = CHR ''.'' # pa @ [NL]"
    using assms(2) by (simp_all add: digits_def takeWhile_digits_stop dropWhile_digits_stop)
  have t3: "takeWhile is_digit (pa @ [NL]) = pa" and d3: "dropWhile is_digit (pa @ [NL]) = [NL]"
    using assms(3) by (simp_all add: digits_def takeWhile_digits_stop dropWhile_digits_stop)
  from assms show ?thesis
    by (simp add: match_version_def semver_def t1 d1 t2 d2 t3 d3 digits_def)
qed

lemma parse_version_accepts:
  "(\<exists>t. parse_version v = Inr t) \<longleftrightarrow>
     (\<exists>ma mi pa. digits ma \<and> digits mi \<and> digits pa
        \<and> (v = semver ma mi pa \<or> v = semver ma mi pa @ [NL]))"
proof
  assume "\<exists>t. parse_version v = Inr t"
  then obtain g1 g2 g3 where "match_version v = Some (g1, g2, g3)"
    by (auto simp: parse_version_def split: option.splits)
  from match_version_Some [OF this] show "\<exists>ma mi pa. digits ma \<and> digits mi \<and> digits pa
        \<and> (v = semver ma mi pa \<or> v = semver ma mi pa @ [NL])"
    by blast
next
  assume "\<exists>ma mi pa. digits ma \<and> digits mi \<and> digits pa
        \<and> (v = semver ma mi pa \<or> v = semver ma mi pa @ [NL])"
  then obtain ma mi pa where d: "digits ma" "digits mi" "digits pa"
    and v: "v = semver ma mi pa \<or> v = semver ma mi pa @ [NL]"
    by blast
  from v have "match_version v = Some (ma, mi, pa)"
    using match_version_semver [OF d] match_version_line_feed [OF d] by auto
  then show "\<exists>t. parse_version v = Inr t"
    by (simp add: parse_version_def)
qed

section \<open>Compatibility and increments\<close>

lemma componentwise_ge_tuple_ge: "componentwise_ge a b \<Longrightarrow> tuple_ge a b"
  by (cases a; cases b) auto

text \<open>
  C1 (as amended). For a command that is not registered \<open>check_compatibility\<close> returns
  false, whatever the required version. For a registered command whose current version
  \<open>a1.a2.a3\<close> and the required version \<open>b1.b2.b3\<close> are valid version strings, it returns
  whether \<open>(a1, a2, a3)\<close> is greater than or equal to \<open>(b1, b2, b3)\<close> in the
  lexicographic order of the triples; so it returns true whenever the current version is
  greater or equal in every component.
\<close>

theorem check_compatibility_lexicographic:
  "(metadata s n = None \<longrightarrow> check_compatibility n r s = Inr False) \<and>
   (metadata s n = Some md \<and> current_version md = semver a1 a2 a3
      \<and> digits a1 \<and> digits a2 \<and> digits a3 \<and> digits b1 \<and> digits b2 \<and> digits b3 \<longrightarrow>
    check_compatibility n (semver b1 b2 b3) s
      = Inr (tuple_ge (int_of_digits a1, int_of_digits a2, int_of_digits a3)
               (int_of_digits b1, int_of_digits b2, int_of_digits b3)) \<and>
    (componentwise_ge (int_of_digits a1, int_of_digits a2, int_of_digits a3)
       (int_of_digits b1, int_of_digits b2, int_of_digits b3) \<longrightarrow>
     check_compatibility n (semver b1 b2 b3) s = Inr True))"
proof (intro conjI impI)
  assume "metadata s n = None"
  then show "check_compatibility n r s = Inr False"
    by (simp add: check_compatibility_def)
next
  assume h: "metadata s n = Some md \<and> current_version md = semver a1 a2 a3
    \<and> digits a1 \<and> digits a2 \<and> digits a3 \<and> digits b1 \<and> digits b2 \<and> digits b3"
  then have cur: "parse_version (current_version md)
      = Inr (int_of_digits a1, int_of_digits a2, int_of_digits a3)"
    by (simp add: parse_version_semver)
  from h have req: "parse_version (semver b1 b2 b3)
      = Inr (int_of_digits b1, int_of_digits b2, int_of_digits b3)"
    by (simp add: parse_version_semver)
  from h cur req
  show eq: "check_compatibility n (semver b1 b2 b3) s
      = Inr (tuple_ge (int_of_digits a1, int_of_digits a2, int_of_digits a3)
               (int_of_digits b1, int_of_digits b2, int_of_digits b3))"
    by (simp add: check_compatibility_def)
  assume "componentwise_ge (int_of_digits a1, int_of_digits a2, int_of_digits a3)
     (int_of_digits b1, int_of_digits b2, int_of_digits b3)"
  then have "tuple_ge (int_of_digits a1, int_of_digits a2, int_of_digits a3)
     (int_of_digits b1, int_of_digits b2, int_of_digits b3)"
    by (rule componentwise_ge_tuple_ge)
  with eq show "check_compatibility n (semver b1 b2 b3) s = Inr True"
    by simp
qed

text \<open>
  C1, at a store where \<open>deploy\<close> is at \<open>2.0.0\<close>: the requirements \<open>1.5.0\<close>, \<open>2.0.1\<close>
  and \<open>1.0.0\<close>, and a command that is not registered.
\<close>

theorem check_compatibility_lexicographic_witness:
  "metadata (demo_state ''2.0.0'' Map.empty) ''deploy'' = Some (demo_metadata ''2.0.0'')
   \<and> current_version (demo_metadata ''2.0.0'') = semver ''2'' ''0'' ''0''
   \<and> digits ''2'' \<and> digits ''0'' \<and> digits ''1'' \<and> digits ''5''
   \<and> check_compatibility ''deploy'' ''1.5.0'' (demo_state ''2.0.0'' Map.empty) = Inr True
   \<and> check_compatibility ''deploy'' ''2.0.1'' (demo_state ''2.0.0'' Map.empty) = Inr False
   \<and> componentwise_ge (2, 0, 0) (1, 0, 0)
   \<and> check_compatibility ''deploy'' ''1.0.0'' (demo_state ''2.0.0'' Map.empty) = Inr True
   \<and> metadata (demo_state ''2.0.0'' Map.empty) ''lint'' = None
   \<and> check_compatibility ''lint'' ''1.0.0'' (demo_state ''2.0.0'' Map.empty) = Inr False"
proof -
  let ?s = "demo_state ''2.0.0'' Map.empty"
  have d: "digits ''2''" "digits ''0''" "digits ''1''" "digits ''5''"
    by (simp_all add: digits_def is_digit_def)
  have m: "metadata ?s ''deploy'' = Some (demo_metadata ''2.0.0'')"
    "metadata ?s ''lint'' = None"
    "current_version (demo_metadata ''2.0.0'') = semver ''2'' ''0'' ''0''"
    by (simp_all add: demo_state_def demo_metadata_def semver_def)
  have i: "int_of_digits ''2'' = 2" "int_of_digits ''0'' = 0" "int_of_digits ''1'' = 1"
    "int_of_digits ''5'' = 5"
    by (simp_all add: int_of_digits_def digit_val_def)
  have v: "semver ''1'' ''5'' ''0'' = ''1.5.0''" "semver ''2'' ''0'' ''1'' = ''2.0.1''"
    "semver ''1'' ''0'' ''0'' = ''1.0.0''"
    by (simp_all add: semver_def)
  show ?thesis
    using
      check_compatibility_lexicographic [of ?s "''deploy''" "''1.5.0''" "demo_metadata ''2.0.0''"
        "''2''" "''0''" "''0''" "''1''" "''5''" "''0''"]
      check_compatibility_lexicographic [of ?s "''deploy''" "''1.5.0''" "demo_metadata ''2.0.0''"
        "''2''" "''0''" "''0''" "''2''" "''0''" "''1''"]
      check_compatibility_lexicographic [of ?s "''deploy''" "''1.5.0''" "demo_metadata ''2.0.0''"
        "''2''" "''0''" "''0''" "''1''" "''0''" "''0''"]
      check_compatibility_lexicographic [of ?s "''lint''" "''1.0.0''"]
    by (simp add: d m i v)
qed

text \<open>
  C1 as stated fails: \<open>2.0.0\<close> is not greater or equal to \<open>1.5.0\<close> in every component
  (the minor component is smaller), and \<open>check_compatibility\<close> returns true.
\<close>

theorem check_compatibility_componentwise_counterexample:
  "parse_version ''2.0.0'' = Inr (2, 0, 0) \<and> parse_version ''1.5.0'' = Inr (1, 5, 0)
   \<and> \<not> componentwise_ge (2, 0, 0) (1, 5, 0)
   \<and> check_compatibility ''deploy'' ''1.5.0'' (demo_state ''2.0.0'' Map.empty) = Inr True"
  by (simp add: check_compatibility_def demo_state_def demo_metadata_def parse_version_def
      match_version_def is_digit_def int_of_digits_def digit_val_def Let_def)

text \<open>
  C2. For every valid version string \<open>MAJOR.MINOR.PATCH\<close> the increment is
  \<open>(MAJOR+1).0.0\<close> for a major change, \<open>MAJOR.(MINOR+1).0\<close> for a minor change and
  \<open>MAJOR.MINOR.(PATCH+1)\<close> for a patch change; \<open>1.2.3\<close> becomes \<open>2.0.0\<close>, \<open>1.3.0\<close> and
  \<open>1.2.4\<close>, and \<open>0.0.0\<close> by patch becomes \<open>0.0.1\<close>.
\<close>

theorem increment_version_rules:
  assumes "digits ma" and "digits mi" and "digits pa"
  shows "increment_version (semver ma mi pa) MAJOR
      = Inr (format_version (int_of_digits ma + 1) 0 0)
    \<and> increment_version (semver ma mi pa) MINOR
      = Inr (format_version (int_of_digits ma) (int_of_digits mi + 1) 0)
    \<and> increment_version (semver ma mi pa) PATCH
      = Inr (format_version (int_of_digits ma) (int_of_digits mi) (int_of_digits pa + 1))
    \<and> increment_version ''1.2.3'' MAJOR = Inr ''2.0.0''
    \<and> increment_version ''1.2.3'' MINOR = Inr ''1.3.0''
    \<and> increment_version ''1.2.3'' PATCH = Inr ''1.2.4''
    \<and> increment_version ''0.0.0'' PATCH = Inr ''0.0.1''"
proof -
  have general: "increment_version (semver ma mi pa) ct =
      (case ct of
         MAJOR \<Rightarrow> Inr (format_version (int_of_digits ma + 1) 0 0)
       | MINOR \<Rightarrow> Inr (format_version (int_of_digits ma) (int_of_digits mi + 1) 0)
       | PATCH \<Rightarrow> Inr (format_version (int_of_digits ma) (int_of_digits mi)
                        (int_of_digits pa + 1)))" for ct
    by (simp add: increment_version_def parse_version_semver [OF assms])
  have ex: "increment_version ''1.2.3'' MAJOR = Inr ''2.0.0''"
    "increment_version ''1.2.3'' MINOR = Inr ''1.3.0''"
    "increment_version ''1.2.3'' PATCH = Inr ''1.2.4''"
    "increment_version ''0.0.0'' PATCH = Inr ''0.0.1''"
    by code_simp+
  show ?thesis
    by (simp add: general ex)
qed

text \<open>C2, at \<open>4.10.9\<close>.\<close>

theorem increment_version_rules_witness:
  "digits ''4'' \<and> digits ''10'' \<and> digits ''9''
   \<and> increment_version ''4.10.9'' MAJOR = Inr ''5.0.0''
   \<and> increment_version ''4.10.9'' MINOR = Inr ''4.11.0''
   \<and> increment_version ''4.10.9'' PATCH = Inr ''4.10.10''"
proof -
  have d: "digits ''4''" "digits ''10''" "digits ''9''"
    by (simp_all add: digits_def is_digit_def)
  have f: "format_version 5 0 0 = ''5.0.0''" "format_version 4 11 0 = ''4.11.0''"
    "format_version 4 10 10 = ''4.10.10''"
    by code_simp+
  have i: "int_of_digits ''4'' = 4" "int_of_digits ''10'' = 10" "int_of_digits ''9'' = 9"
    by (simp_all add: int_of_digits_def digit_val_def)
  show ?thesis
    using increment_version_rules [OF d] by (simp add: d semver_def f i)
qed

section \<open>Updates and initialization\<close>

lemma find_command_file_exists:
  "find_command_file n s = Some p \<Longrightarrow> files s p \<noteq> None"
  by (auto simp: find_command_file_def split: if_splits)

lemma update_command_file_found:
  "find_command_file n s = Some p \<Longrightarrow>
   \<exists>text. files s p = Some text
     \<and> update_command_file p v s = Inr (s\<lparr>files := (files s)(p \<mapsto> new_content text v)\<rparr>)"
  by (drule find_command_file_exists) (auto simp: update_command_file_def)

lemma increment_version_Inl:
  "increment_version v ct = Inl e \<longleftrightarrow> parse_version v = Inl e"
  by (cases "parse_version v"; cases ct) (auto simp: increment_version_def)

lemma increment_version_Inr:
  "parse_version v = Inr (a, b, c) \<Longrightarrow>
   increment_version v ct =
     Inr (case ct of MAJOR \<Rightarrow> format_version (a + 1) 0 0
          | MINOR \<Rightarrow> format_version a (b + 1) 0
          | PATCH \<Rightarrow> format_version a b (c + 1))"
  by (cases ct) (simp_all add: increment_version_def)

text \<open>What a successful update leaves, spelled out.\<close>

lemma update_version_Inr:
  assumes "metadata s n = Some md"
    and "increment_version (current_version md) ct = Inr new_version"
  shows "\<exists>s2 s3. update_version n ct chgs br dep (t1, t2, d) s
      = Inr (update_changelog n (current_version md) new_version
               \<lparr>version = new_version, released = t1, changes = chgs,
                breaking_changes = or_empty br, deprecated_features = or_empty dep\<rparr> d s3)
    \<and> s2 = save_metadata (s\<lparr>metadata := (metadata s)(n \<mapsto>
              md\<lparr>current_version := new_version, last_updated := t2,
                 version_history := version_history md @
                   [\<lparr>version = new_version, released = t1, changes = chgs,
                     breaking_changes = or_empty br, deprecated_features = or_empty dep\<rparr>]\<rparr>)\<rparr>)
    \<and> (case find_command_file n s2 of
          None \<Rightarrow> s3 = s2
        | Some p \<Rightarrow> \<exists>text. files s2 p = Some text
            \<and> s3 = s2\<lparr>files := (files s2)(p \<mapsto> new_content text new_version)\<rparr>)"
proof (cases "find_command_file n (save_metadata (s\<lparr>metadata := (metadata s)(n \<mapsto>
              md\<lparr>current_version := new_version, last_updated := t2,
                 version_history := version_history md @
                   [\<lparr>version = new_version, released = t1, changes = chgs,
                     breaking_changes = or_empty br, deprecated_features = or_empty dep\<rparr>]\<rparr>)\<rparr>))")
  case None
  with assms show ?thesis
    by (simp add: update_version_def Let_def)
next
  case (Some p)
  from update_command_file_found [OF Some, of new_version] Some assms show ?thesis
    by (auto simp: update_version_def Let_def)
qed

text \<open>
  C3. A call of \<open>update_version\<close> fails exactly when the command is not registered or its
  stored current version is rejected by \<open>_parse_version\<close> (\<open>parse_version_accepts\<close> says
  which strings are not); the error is then the one of that cause, and the state at the
  raise is the state before the call: the metadata store on disk, every command file and
  the changelog are as they were (and so is the dictionary in memory).
\<close>

theorem update_version_failure_atomic:
  "update_version n ct chgs br dep now s = Inl (e, s') \<longleftrightarrow>
     s' = s \<and>
     (metadata s n = None \<and> e = ValueError (''Command '' @ n @ '' not found in metadata'')
      \<or> (\<exists>md. metadata s n = Some md \<and> parse_version (current_version md) = Inl e))"
proof (cases "metadata s n")
  case None
  then show ?thesis
    by (auto simp: update_version_def Let_def)
next
  case (Some md)
  show ?thesis
  proof (cases "increment_version (current_version md) ct")
    case (Inl err)
    with Some have "update_version n ct chgs br dep now s = Inl (err, s)"
      by (simp add: update_version_def)
    moreover from Inl have "parse_version (current_version md) = Inl err"
      by (simp add: increment_version_Inl)
    ultimately show ?thesis
      using Some by auto
  next
    case (Inr new_version)
    obtain t1 t2 d where now: "now = (t1, t2, d)"
      by (cases now) auto
    from update_version_Inr [OF Some Inr, of chgs br dep t1 t2 d]
    have "\<exists>r. update_version n ct chgs br dep now s = Inr r"
      unfolding now by blast
    moreover from Inr have "\<And>e. parse_version (current_version md) \<noteq> Inl e"
      using increment_version_Inl [of "current_version md" ct] by auto
    ultimately show ?thesis
      using Some by auto
  qed
qed

text \<open>
  C3, for a command that is not registered and for a stored version \<open>1.0\<close>.
\<close>

theorem update_version_failure_atomic_witness:
  "update_version ''lint'' PATCH [''Fix typo''] None None
       (''2024-03-01T10:00:00'', ''2024-03-01T10:00:01'', ''2024-03-01'')
       (demo_state ''1.0.0'' Map.empty)
     = Inl (ValueError ''Command lint not found in metadata'', demo_state ''1.0.0'' Map.empty)
   \<and> update_version ''deploy'' PATCH [''Fix typo''] None None
       (''2024-03-01T10:00:00'', ''2024-03-01T10:00:01'', ''2024-03-01'')
       (demo_state ''1.0'' [[''repo'', ''tools'', ''deploy.md''] \<mapsto> ''# Deploy''])
     = Inl (ValueError ''Invalid version format: 1.0'',
            demo_state ''1.0'' [[''repo'', ''tools'', ''deploy.md''] \<mapsto> ''# Deploy''])"
proof -
  have p: "parse_version ''1.0'' = Inl (ValueError ''Invalid version format: 1.0'')"
    by (simp add: parse_version_def match_version_def is_digit_def Let_def)
  show ?thesis
    using
      update_version_failure_atomic [of "''lint''" PATCH "[''Fix typo'']" None None
        "(''2024-03-01T10:00:00'', ''2024-03-01T10:00:01'', ''2024-03-01'')"
        "demo_state ''1.0.0'' Map.empty" "ValueError ''Command lint not found in metadata''"
        "demo_state ''1.0.0'' Map.empty"]
      update_version_failure_atomic [of "''deploy''" PATCH "[''Fix typo'']" None None
        "(''2024-03-01T10:00:00'', ''2024-03-01T10:00:01'', ''2024-03-01'')"
        "demo_state ''1.0'' [[''repo'', ''tools'', ''deploy.md''] \<mapsto> ''# Deploy'']"
        "ValueError ''Invalid version format: 1.0''"
        "demo_state ''1.0'' [[''repo'', ''tools'', ''deploy.md''] \<mapsto> ''# Deploy'']"]
    by (simp add: p demo_state_def demo_metadata_def)
qed

lemma history_okD:
  assumes "history_ok md"
  shows "version_history md \<noteq> []"
    and "current_version md = version (last (version_history md))"
    and "version_le (current_version md) (current_version md)"
    and "sorted_wrt version_le (map version (version_history md))"
  using assms unfolding history_ok_def by blast+

lemma tuple_ge_refl: "tuple_ge a a"
  by (cases a) simp

lemma tuple_ge_trans: "tuple_ge a b \<Longrightarrow> tuple_ge b c \<Longrightarrow> tuple_ge a c"
  by (cases a; cases b; cases c) (auto split: if_splits)

lemma version_le_trans: "version_le u v \<Longrightarrow> version_le v w \<Longrightarrow> version_le u w"
  unfolding version_le_def
  by (cases "parse_version u"; cases "parse_version v"; cases "parse_version w")
    (auto simp del: tuple_ge.simps intro: tuple_ge_trans)

lemma version_le_refl_iff: "version_le v v \<longleftrightarrow> (\<exists>a b c. parse_version v = Inr (a, b, c))"
  by (cases "parse_version v") (auto simp: version_le_def tuple_ge_refl)

lemma increment_version_le:
  assumes "version_le v v"
  shows "\<exists>w. increment_version v ct = Inr w \<and> version_le v w \<and> version_le w w"
proof -
  from assms obtain a b c where p: "parse_version v = Inr (a, b, c)"
    by (auto simp: version_le_refl_iff)
  show ?thesis
    by (cases ct)
      (simp_all add: increment_version_Inr [OF p] version_le_def p
        parse_version_format_version)
qed

lemma sorted_wrt_last:
  "sorted_wrt P xs \<Longrightarrow> xs \<noteq> [] \<Longrightarrow> P (last xs) (last xs) \<Longrightarrow> x \<in> set xs \<Longrightarrow> P x (last xs)"
  by (induction xs) (auto split: if_splits)

lemma history_ok_append:
  assumes "history_ok md" and "version_le (current_version md) w" and "version_le w w"
  shows "history_ok (md\<lparr>current_version := w, last_updated := t,
            version_history := version_history md @
              [\<lparr>version = w, released = r, changes = cs, breaking_changes = bs,
                deprecated_features = ds\<rparr>]\<rparr>)"
proof -
  note ok = history_okD [OF assms(1)]
  have cur: "current_version md = last (map version (version_history md))"
    using ok(1,2) by (simp add: last_map)
  have "version_le v w" if "v \<in> set (map version (version_history md))" for v
  proof -
    have "version_le v (last (map version (version_history md)))"
      using sorted_wrt_last [of version_le "map version (version_history md)" v]
        ok(1,3,4) that cur by simp
    with assms(2) cur show ?thesis
      by (metis version_le_trans)
  qed
  with ok(1,4) assms(3) show ?thesis
    by (auto simp: history_ok_def sorted_wrt_append)
qed

lemma metadata_update_changelog [simp]:
  "metadata (update_changelog n old new e d s) = metadata s"
  by (simp add: update_changelog_def)

lemma update_version_history:
  assumes "metadata s n = Some md" and "history_ok md"
  shows "\<exists>s' md' e. update_version n ct chgs br dep now s = Inr s'
    \<and> metadata s' n = Some md' \<and> version_history md' = version_history md @ [e]
    \<and> history_ok md'"
proof -
  obtain t1 t2 d where now: "now = (t1, t2, d)"
    by (cases now) auto
  from increment_version_le [OF history_okD(3) [OF assms(2)], of ct]
  obtain w where w: "increment_version (current_version md) ct = Inr w"
    "version_le (current_version md) w" "version_le w w"
    by blast
  from update_version_Inr [OF assms(1) w(1), of chgs br dep t1 t2 d]
  obtain s2 s3 where r:
    "update_version n ct chgs br dep now s
       = Inr (update_changelog n (current_version md) w
               \<lparr>version = w, released = t1, changes = chgs,
                breaking_changes = or_empty br, deprecated_features = or_empty dep\<rparr> d s3)"
    "s2 = save_metadata (s\<lparr>metadata := (metadata s)(n \<mapsto>
              md\<lparr>current_version := w, last_updated := t2,
                 version_history := version_history md @
                   [\<lparr>version = w, released = t1, changes = chgs,
                     breaking_changes = or_empty br, deprecated_features = or_empty dep\<rparr>]\<rparr>)\<rparr>)"
    "case find_command_file n s2 of
          None \<Rightarrow> s3 = s2
        | Some p \<Rightarrow> \<exists>text. files s2 p = Some text
            \<and> s3 = s2\<lparr>files := (files s2)(p \<mapsto> new_content text w)\<rparr>"
    unfolding now by blast
  from r(3) have "metadata s3 = metadata s2"
    by (auto split: option.splits)
  with r(2) have m: "metadata s3 n = Some (md\<lparr>current_version := w, last_updated := t2,
                 version_history := version_history md @
                   [\<lparr>version = w, released = t1, changes = chgs,
                     breaking_changes = or_empty br, deprecated_features = or_empty dep\<rparr>]\<rparr>)"
    by (simp add: save_metadata_def)
  from history_ok_append [OF assms(2) w(2,3)] r(1) m show ?thesis
    by auto
qed

lemma update_all_history:
  assumes "metadata s n = Some md" and "history_ok md"
  shows "\<exists>s' md' es. update_all n us s = Inr s' \<and> metadata s' n = Some md'
    \<and> version_history md' = version_history md @ es \<and> length es = length us
    \<and> history_ok md'"
  using assms
proof (induction us arbitrary: s md)
  case Nil
  then show ?case by simp
next
  case (Cons u us)
  obtain ct chgs br dep now where u: "u = (ct, chgs, br, dep, now)"
    by (cases u) auto
  from update_version_history [OF Cons.prems, of ct chgs br dep now]
  obtain s1 md1 e where s1: "update_version n ct chgs br dep now s = Inr s1"
    "metadata s1 n = Some md1" "version_history md1 = version_history md @ [e]"
    "history_ok md1"
    by blast
  from Cons.IH [OF s1(2,4)]
  obtain s' md' es where "update_all n us s1 = Inr s'" "metadata s' n = Some md'"
    "version_history md' = version_history md1 @ es" "length es = length us" "history_ok md'"
    by blast
  with s1 u show ?case
    by (intro exI [of _ s'] exI [of _ md'] exI [of _ "e # es"]) simp
qed

lemma update_all_append:
  "update_all n (us @ vs) s =
     (case update_all n us s of Inl failure \<Rightarrow> Inl failure | Inr s' \<Rightarrow> update_all n vs s')"
  by (induction us arbitrary: s) (auto split: sum.splits)

lemma metadata_update_command_file:
  "metadata (state_of (update_command_file p v s)) = metadata s"
  by (simp add: update_command_file_def state_of_def split: option.splits)

lemma initialize_command_fresh:
  assumes "metadata s (stem p) = None"
  shows "\<exists>md. metadata (state_of (initialize_command p descr tgs deps now s)) (stem p) = Some md
    \<and> current_version md = ''1.0.0'' \<and> map version (version_history md) = [''1.0.0'']"
proof -
  obtain t1 t2 t3 where "now = (t1, t2, t3)"
    by (cases now) auto
  with assms show ?thesis
    by (simp add: initialize_command_def Let_def metadata_update_command_file
        save_metadata_def)
qed

lemma version_le_initial: "version_le ''1.0.0'' ''1.0.0''"
  by (simp add: version_le_def parse_version_def match_version_def is_digit_def Let_def)

text \<open>
  C4. After the initialization of a command that was not registered, every run of \<open>n\<close>
  updates of it succeeds; then the history has \<open>n + 1\<close> entries, the current version is
  the version of the last entry, and the versions of the history do not decrease. After
  the first \<open>k\<close> of the updates the history is the first \<open>k + 1\<close> entries of the final
  one, so each update adds exactly one entry, and the current version is the version of
  entry \<open>k\<close>, so it does not decrease from one update to the next.
\<close>

theorem history_after_updates:
  assumes "metadata s (stem p) = None"
  shows "\<exists>sn md.
      update_all (stem p) us (state_of (initialize_command p descr tgs deps now s)) = Inr sn
    \<and> metadata sn (stem p) = Some md
    \<and> length (version_history md) = length us + 1
    \<and> current_version md = version (last (version_history md))
    \<and> sorted_wrt version_le (map version (version_history md))
    \<and> (\<forall>k\<le>length us. \<exists>sk mk.
          update_all (stem p) (take k us) (state_of (initialize_command p descr tgs deps now s))
            = Inr sk
        \<and> metadata sk (stem p) = Some mk
        \<and> version_history mk = take (k + 1) (version_history md)
        \<and> current_version mk = version (version_history md ! k))"
proof -
  let ?n = "stem p"
  let ?s0 = "state_of (initialize_command p descr tgs deps now s)"
  from initialize_command_fresh [OF assms, of descr tgs deps now]
  obtain md0 where md0: "metadata ?s0 ?n = Some md0" "current_version md0 = ''1.0.0''"
    "map version (version_history md0) = [''1.0.0'']"
    by (elim exE conjE)
  from md0(3) have len0: "length (version_history md0) = 1"
    by (metis length_map length_Cons list.size(3) One_nat_def)
  from md0(3) len0 have last0: "version (last (version_history md0)) = ''1.0.0''"
    by (cases "version_history md0") auto
  from md0 len0 last0 have ok0: "history_ok md0"
    by (auto simp: history_ok_def version_le_initial)
  from update_all_history [OF md0(1) ok0, of us]
  obtain sn md es where fin: "update_all ?n us ?s0 = Inr sn" "metadata sn ?n = Some md"
    "version_history md = version_history md0 @ es" "length es = length us" "history_ok md"
    by blast
  have "\<exists>sk mk. update_all ?n (take k us) ?s0 = Inr sk \<and> metadata sk ?n = Some mk
      \<and> version_history mk = take (k + 1) (version_history md)
      \<and> current_version mk = version (version_history md ! k)"
    if k: "k \<le> length us" for k
  proof -
    from update_all_history [OF md0(1) ok0, of "take k us"]
    obtain sk mk esk where sk: "update_all ?n (take k us) ?s0 = Inr sk"
      "metadata sk ?n = Some mk" "version_history mk = version_history md0 @ esk"
      "length esk = length (take k us)" "history_ok mk"
      by blast
    from update_all_history [OF sk(2,5), of "drop k us"]
    obtain s' md' es' where rest: "update_all ?n (drop k us) sk = Inr s'"
      "metadata s' ?n = Some md'" "version_history md' = version_history mk @ es'"
      by blast
    have "update_all ?n us ?s0 = update_all ?n (drop k us) sk"
      using update_all_append [of ?n "take k us" "drop k us" ?s0] sk(1) by simp
    with fin(1,2) rest have "md' = md"
      by simp
    with rest(3) have h: "version_history md = version_history mk @ es'"
      by simp
    from sk(3,4) len0 k have lk: "length (version_history mk) = k + 1"
      by simp
    from h lk have t: "version_history mk = take (k + 1) (version_history md)"
      by simp
    from history_okD(1,2) [OF sk(5)] lk
    have "current_version mk = version (version_history mk ! k)"
      by (simp add: last_conv_nth)
    also from h lk have "version_history mk ! k = version_history md ! k"
      by (simp add: nth_append)
    finally show ?thesis
      using sk(1,2) t by blast
  qed
  with fin(1-4) len0 history_okD(2,4) [OF fin(5)] show ?thesis
    by auto
qed

text \<open>
  C5. For a command that is in the store, \<open>initialize_command\<close> raises nothing and
  leaves the state as it is; so a second initialization, with any arguments, leaves the
  state that the first one left.
\<close>

theorem initialize_command_idempotent:
  "(metadata s (stem p) \<noteq> None \<longrightarrow> initialize_command p descr tgs deps now s = Inr s) \<and>
   initialize_command p descr' tgs' deps' now'
       (state_of (initialize_command p descr tgs deps now s))
     = Inr (state_of (initialize_command p descr tgs deps now s))"
proof -
  have noop: "initialize_command p d t dp nw st = Inr st" if "metadata st (stem p) \<noteq> None"
    for d t dp nw st
    using that by (simp add: initialize_command_def Let_def)
  have "metadata (state_of (initialize_command p descr tgs deps now s)) (stem p) \<noteq> None"
  proof (cases "metadata s (stem p)")
    case None
    from initialize_command_fresh [OF this, of descr tgs deps now] show ?thesis
      by (elim exE conjE) simp
  next
    case (Some md)
    then show ?thesis
      by (simp add: noop state_of_def)
  qed
  with noop show ?thesis
    by blast
qed


lemma stem_deploy: "stem [''repo'', ''tools'', ''deploy.md''] = ''deploy''"
  by (simp add: stem_def path_name_def str_rfind_def startswith_def)

text \<open>C4, for a new tool \<open>deploy\<close> and two updates.\<close>

theorem history_after_updates_witness:
  "metadata fresh_state (stem [''repo'', ''tools'', ''deploy.md'']) = None
   \<and> (\<exists>sn md.
      update_all ''deploy'' demo_updates
        (state_of (initialize_command [''repo'', ''tools'', ''deploy.md''] ''Tool: Deploy''
           None None (''2024-01-01T09:00:00'', ''2024-01-01T09:00:01'', ''2024-01-01T09:00:02'')
           fresh_state)) = Inr sn
    \<and> metadata sn ''deploy'' = Some md
    \<and> length (version_history md) = 3
    \<and> current_version md = version (last (version_history md))
    \<and> sorted_wrt version_le (map version (version_history md)))"
proof -
  have h: "metadata fresh_state (stem [''repo'', ''tools'', ''deploy.md'']) = None"
    by (simp add: fresh_state_def)
  have l: "length demo_updates = 2"
    by (simp add: demo_updates_def)
  from history_after_updates [OF h, of demo_updates "''Tool: Deploy''" None None
      "(''2024-01-01T09:00:00'', ''2024-01-01T09:00:01'', ''2024-01-01T09:00:02'')"]
  obtain sn md where
    "update_all ''deploy'' demo_updates
        (state_of (initialize_command [''repo'', ''tools'', ''deploy.md''] ''Tool: Deploy''
           None None (''2024-01-01T09:00:00'', ''2024-01-01T09:00:01'', ''2024-01-01T09:00:02'')
           fresh_state)) = Inr sn"
    "metadata sn ''deploy'' = Some md"
    "length (version_history md) = 3"
    "current_version md = version (last (version_history md))"
    "sorted_wrt version_le (map version (version_history md))"
    unfolding stem_deploy l by (elim exE conjE) simp
  with h show ?thesis
    by (intro conjI exI [of _ sn] exI [of _ md])
qed

text \<open>C5, for \<open>deploy\<close> registered at \<open>1.2.0\<close>.\<close>

theorem initialize_command_idempotent_witness:
  "metadata (demo_state ''1.2.0'' Map.empty) (stem [''repo'', ''tools'', ''deploy.md'']) \<noteq> None
   \<and> initialize_command [''repo'', ''tools'', ''deploy.md''] ''Tool: Deploy'' None None
        (''2024-01-01T09:00:00'', ''2024-01-01T09:00:01'', ''2024-01-01T09:00:02'')
        (demo_state ''1.2.0'' Map.empty)
      = Inr (demo_state ''1.2.0'' Map.empty)"
proof -
  have h: "metadata (demo_state ''1.2.0'' Map.empty) (stem [''repo'', ''tools'', ''deploy.md''])
      \<noteq> None"
    by (simp add: stem_deploy demo_state_def)
  from initialize_command_idempotent [of "demo_state ''1.2.0'' Map.empty"
      "[''repo'', ''tools'', ''deploy.md'']" "''Tool: Deploy''" None None
      "(''2024-01-01T09:00:00'', ''2024-01-01T09:00:01'', ''2024-01-01T09:00:02'')"]
  have "metadata (demo_state ''1.2.0'' Map.empty) (stem [''repo'', ''tools'', ''deploy.md''])
      \<noteq> None \<longrightarrow>
    initialize_command [''repo'', ''tools'', ''deploy.md''] ''Tool: Deploy'' None None
        (''2024-01-01T09:00:00'', ''2024-01-01T09:00:01'', ''2024-01-01T09:00:02'')
        (demo_state ''1.2.0'' Map.empty)
      = Inr (demo_state ''1.2.0'' Map.empty)"
    by (rule conjunct1)
  from this h have "initialize_command [''repo'', ''tools'', ''deploy.md''] ''Tool: Deploy''
        None None (''2024-01-01T09:00:00'', ''2024-01-01T09:00:01'', ''2024-01-01T09:00:02'')
        (demo_state ''1.2.0'' Map.empty)
      = Inr (demo_state ''1.2.0'' Map.empty)"
    by (rule mp)
  with h show ?thesis
    by (rule conjI)
qed


section \<open>The changelog\<close>

lemma split_on_nonempty: "split_on d s \<noteq> []"
  by (induction s) (auto split: list.splits)






lemma join_with_split_on: "join_with [d] (split_on d s) = s"
proof (induction s)
  case Nil
  show ?case by simp
next
  case (Cons c s)
  obtain x xs where x: "split_on d s = x # xs"
    using split_on_nonempty [of d s] by (cases "split_on d s") auto
  with Cons show ?case
    by (cases xs) auto
qed






section \<open>The frontmatter\<close>

subsection \<open>Searching\<close>

lemma startswith_Nil [simp]: "startswith [] sub \<longleftrightarrow> sub = []"
  by (auto simp: startswith_def)

lemma startswith_prefix: "startswith (sub @ s) sub"
  by (simp add: startswith_def)




lemma startswith_hd: "startswith (c # s) sub \<Longrightarrow> sub \<noteq> [] \<Longrightarrow> c = hd sub"
  by (cases sub) (auto simp: startswith_def)






lemma str_find_skip:
  "(\<And>j. j < length a \<Longrightarrow> \<not> startswith (drop j a @ t) sub)
     \<Longrightarrow> str_find sub (a @ t) = map_option (\<lambda>i. i + length a) (str_find sub t)"
proof (induction a)
  case Nil
  show ?case by (simp add: option.map_ident)
next
  case (Cons c a)
  from Cons.prems [of 0] have n: "\<not> startswith (c # a @ t) sub"
    by simp
  have "str_find sub (a @ t) = map_option (\<lambda>i. i + length a) (str_find sub t)"
  proof (rule Cons.IH)
    fix j
    assume "j < length a"
    then show "\<not> startswith (drop j a @ t) sub"
      using Cons.prems [of "Suc j"] by simp
  qed
  with n show ?case
    by (simp add: option.map_comp comp_def)
qed




subsection \<open>Version strings as text\<close>

lemma is_digit_version_char: "is_digit c \<Longrightarrow> is_version_char c"
  by (simp add: is_version_char_def)






subsection \<open>The substitution\<close>



subsection \<open>Delimited blocks\<close>










subsection \<open>First occurrences\<close>


lemma str_find_Some_least:
  "str_find sub s = Some k \<Longrightarrow> j < k \<Longrightarrow> \<not> startswith (drop j s) sub"
proof (induction s arbitrary: k j)
  case Nil
  then show ?case by (auto split: if_splits)
next
  case (Cons c s)
  show ?case
  proof (cases "startswith (c # s) sub")
    case True
    with Cons.prems show ?thesis by simp
  next
    case False
    with Cons.prems obtain k' where k': "k = Suc k'" "str_find sub s = Some k'"
      by auto
    show ?thesis
    proof (cases j)
      case 0
      with False show ?thesis by simp
    next
      case (Suc j')
      with Cons.prems(2) k'(1) have "j' < k'" by simp
      from Cons.IH [OF k'(2) this] Suc show ?thesis by simp
    qed
  qed
qed


lemma str_find_self: "str_find sub (sub @ t) = Some 0"
proof (cases "sub @ t")
  case Nil
  then show ?thesis by simp
next
  case (Cons a l)
  with startswith_prefix [of sub t] have "startswith (a # l) sub"
    by simp
  then show ?thesis
    unfolding Cons by simp
qed

lemma closes_iff:
  "closes block rest \<longleftrightarrow>
     (\<forall>j<length block. \<not> startswith (drop j block @ ''---'' @ rest) ''---'')"
proof
  assume c: "closes block rest"
  show "\<forall>j<length block. \<not> startswith (drop j block @ ''---'' @ rest) ''---''"
  proof (intro allI impI)
    fix j
    assume j: "j < length block"
    from c have "str_find ''---'' (block @ ''---'' @ rest) = Some (length block)"
      by (simp add: closes_def)
    from str_find_Some_least [OF this j] j
    show "\<not> startswith (drop j block @ ''---'' @ rest) ''---''"
      by simp
  qed
next
  assume "\<forall>j<length block. \<not> startswith (drop j block @ ''---'' @ rest) ''---''"
  then have "str_find ''---'' (block @ ''---'' @ rest)
      = map_option (\<lambda>i. i + length block) (str_find ''---'' (''---'' @ rest))"
    by (intro str_find_skip) simp
  then show "closes block rest"
    unfolding closes_def str_find_self by simp
qed

lemma closes_dash_free: "CHR ''-'' \<notin> set block \<Longrightarrow> closes block rest"
  unfolding closes_iff
proof (intro allI impI)
  fix j
  assume n: "CHR ''-'' \<notin> set block" and j: "j < length block"
  then obtain c cs where c: "drop j block = c # cs"
    by (cases "drop j block") auto
  then have "c \<in> set (drop j block)"
    by simp
  then have "c \<in> set block"
    by (rule in_set_dropD)
  with n have "c \<noteq> CHR ''-''"
    by auto
  then have "\<not> startswith (c # cs @ ''---'' @ rest) ''---''"
    using startswith_hd [of c "cs @ ''---'' @ rest" "''---''"] by auto
  with c show "\<not> startswith (drop j block @ ''---'' @ rest) ''---''"
    by simp
qed






subsection \<open>Runs of dashes\<close>






subsection \<open>The version line\<close>












subsection \<open>A file with an embedded version\<close>






subsection \<open>The first rewrite\<close>









section \<open>The validators\<close>

lemma header_jumps_level: "r \<in> set (header_jumps p hs) \<Longrightarrow> level r = WARNING"
  by (induction p hs rule: header_jumps.induct) (auto split: if_splits)

lemma validate_markdown_results:
  "results (validate_markdown v) =
     results v
     @ (if odd (str_count [BQ, BQ, BQ] (content v)) then [unclosed_code_block (command_path v)]
        else [])
     @ header_jumps (command_path v) (header_levels (lines v) 0)"
  by (simp add: validate_markdown_def Let_def odd_iff_mod_2_eq_one)

text \<open>
  C8. For every document, \<open>_validate_markdown\<close> reports the error "Unclosed code block
  detected" exactly when the number of triple-backtick markers in the content (counted as
  \<open>str.count\<close> counts them) is odd.
\<close>

theorem unclosed_code_block_iff_odd:
  "(\<exists>r \<in> set (results (validate_markdown (CommandValidator_init p text))).
      level r = ERROR \<and> message r = ''Unclosed code block detected'')
   \<longleftrightarrow> odd (str_count [BQ, BQ, BQ] text)"
proof -
  have "\<not> (level r = ERROR \<and> message r = ''Unclosed code block detected'')"
    if "r \<in> set (header_jumps p hs)" for r hs
    using header_jumps_level [OF that] by simp
  then show ?thesis
    by (auto simp: validate_markdown_results CommandValidator_init_def unclosed_code_block_def)
qed

text \<open>
  C8, for a document with three markers (the error is reported) and one with two (it is
  not).
\<close>

theorem unclosed_code_block_iff_odd_witness:
  "str_count [BQ, BQ, BQ] three_fences = 3
   \<and> (\<exists>r \<in> set (results (validate_markdown (CommandValidator_init ''tools/a.md'' three_fences))).
        level r = ERROR \<and> message r = ''Unclosed code block detected'')
   \<and> str_count [BQ, BQ, BQ] two_fences = 2
   \<and> \<not> (\<exists>r \<in> set (results (validate_markdown (CommandValidator_init ''tools/a.md'' two_fences))).
        level r = ERROR \<and> message r = ''Unclosed code block detected'')"
proof -
  have c: "str_count [BQ, BQ, BQ] three_fences = 3" "str_count [BQ, BQ, BQ] two_fences = 2"
    by (simp_all add: three_fences_def two_fences_def startswith_def)
  show ?thesis
    using unclosed_code_block_iff_odd [of "''tools/a.md''" three_fences]
      unclosed_code_block_iff_odd [of "''tools/a.md''" two_fences]
    by (simp add: c)
qed

lemma validate_task_tool_usage_results:
  "results (validate_task_tool_usage v) =
     results v
     @ (if \<not> str_contains ''Task tool'' (content v)
           \<and> \<not> str_contains ''subagent'' (lower (content v))
        then [task_tool_warning (command_path v)] else [])
     @ (if \<not> str_contains ''subagent_type'' (content v) \<and> str_contains ''Task tool'' (content v)
        then [subagent_type_warning (command_path v)] else [])"
  by (simp add: validate_task_tool_usage_def Let_def)

lemma warnings_differ: "message (subagent_type_warning p) \<noteq> message (task_tool_warning q)"
  by (simp add: subagent_type_warning_def task_tool_warning_def)

text \<open>
  C9 (as amended). For every workflow document, \<open>_validate_task_tool_usage\<close> emits the
  warning "Workflow should use Task tool for subagent coordination" exactly when the
  document contains neither the phrase \<open>Task tool\<close> nor, in any case, the word
  \<open>subagent\<close>.
\<close>

theorem task_tool_warning_iff_neither:
  "(\<exists>r \<in> set (results (validate_task_tool_usage (CommandValidator_init p text))).
      message r = ''Workflow should use Task tool for subagent coordination'')
   \<longleftrightarrow> \<not> str_contains ''Task tool'' text \<and> \<not> str_contains ''subagent'' (lower text)"
  by (auto simp: validate_task_tool_usage_results CommandValidator_init_def
      subagent_type_warning_def task_tool_warning_def)

text \<open>
  C9, for a document with neither of the two (warned) and one that mentions a
  \<open>SubAgent\<close> only (not warned).
\<close>

theorem task_tool_warning_iff_neither_witness:
  "\<not> str_contains ''Task tool'' ''# Deploy the app''
   \<and> \<not> str_contains ''subagent'' (lower ''# Deploy the app'')
   \<and> (\<exists>r \<in> set (results (validate_task_tool_usage
          (CommandValidator_init ''workflows/deploy.md'' ''# Deploy the app''))).
        message r = ''Workflow should use Task tool for subagent coordination'')
   \<and> str_contains ''subagent'' (lower ''Ask a SubAgent'')
   \<and> \<not> (\<exists>r \<in> set (results (validate_task_tool_usage
          (CommandValidator_init ''workflows/deploy.md'' ''Ask a SubAgent''))).
        message r = ''Workflow should use Task tool for subagent coordination'')"
proof -
  have c: "\<not> str_contains ''Task tool'' ''# Deploy the app''"
    "\<not> str_contains ''subagent'' (lower ''# Deploy the app'')"
    "str_contains ''subagent'' (lower ''Ask a SubAgent'')"
    by code_simp+
  show ?thesis
    using task_tool_warning_iff_neither [of "''workflows/deploy.md''" "''# Deploy the app''"]
      task_tool_warning_iff_neither [of "''workflows/deploy.md''" "''Ask a SubAgent''"]
    by (simp add: c)
qed

text \<open>
  C9 as stated fails: a document with the phrase \<open>Task tool\<close> and without the word
  \<open>subagent\<close> does not contain both, and the only result is the other warning.
\<close>

theorem task_tool_warning_both_counterexample:
  "str_contains ''Task tool'' ''Use the Task tool.''
   \<and> \<not> str_contains ''subagent'' (lower ''Use the Task tool.'')
   \<and> results (validate_task_tool_usage
        (CommandValidator_init ''workflows/deploy.md'' ''Use the Task tool.''))
      = [subagent_type_warning ''workflows/deploy.md'']
   \<and> message (subagent_type_warning ''workflows/deploy.md'')
      \<noteq> ''Workflow should use Task tool for subagent coordination''"
proof -
  have c: "str_contains ''Task tool'' ''Use the Task tool.''"
    "\<not> str_contains ''subagent'' (lower ''Use the Task tool.'')"
    "\<not> str_contains ''subagent_type'' ''Use the Task tool.''"
    by code_simp+
  show ?thesis
    by (simp add: validate_task_tool_usage_results CommandValidator_init_def c
        subagent_type_warning_def)
qed

end
